theory Spec2Isabelle
  imports Main "HOL-Library.Word"
begin

section \<open>The ledger as the extraction script reads it\<close>

text \<open>
  The script reads a chain through three calls: \<^verbatim>\<open>api.rpc.chain.getHeader()\<close> (the
  head), \<^verbatim>\<open>api.rpc.chain.getBlockHash(n)\<close> and, for the state at that hash,
  \<^verbatim>\<open>at.query.domains.domainStakingSummary(DOMAIN_ID)\<close>. A run is modelled against
  one fixed view of the ledger: the head and the state at each height do not change
  while the run lasts, and every read answers (a transport failure is not part of the
  model). Heights and epoch indices are JavaScript numbers holding integers, hence
  \<open>int\<close>.
\<close>

text \<open>
  A string is a list of characters with codes below 256.

  The numbers of the chain library (\<^verbatim>\<open>u32\<close>, \<^verbatim>\<open>u64\<close>, \<^verbatim>\<open>u128\<close>) are objects holding
  a non-negative integer of any size: \<open>nat\<close>. Their \<^verbatim>\<open>toString()\<close> prints the decimal
  digits; their \<^verbatim>\<open>toNumber()\<close> throws above 53 bits.

  The values found in the JSON form of such data: \<open>VNull\<close> is \<^verbatim>\<open>null\<close>; \<open>VNum w\<close> is a
  JavaScript number holding a non-negative safe integer, that is an integer from 0 to
  \<open>2^53 - 1\<close>, hence a word of 53 bits (other numbers are not part of the model);
  \<open>VStr s\<close> is a string; \<open>VObj s\<close> is an object whose \<^verbatim>\<open>toString()\<close> returns \<open>s\<close>.
\<close>

datatype jsval = VNull | VNum "53 word" | VStr string | VObj string

text \<open>
  The two shapes \<^verbatim>\<open>mapToObj\<close> distinguishes: a map of the chain library, which has an
  \<^verbatim>\<open>entries()\<close> method and whose keys and values are numbers of the library; and
  anything else, read through \<^verbatim>\<open>Object.entries\<close> of its JSON form, with strings as
  keys.
\<close>

datatype jsmap = MapLike "(nat \<times> nat) list" | JsonLike "(string \<times> jsval) list"

text \<open>
  The unwrapped staking summary of a domain. The epoch index is present under its
  first alias \<^verbatim>\<open>currentEpochIndex\<close>; the total stake and the two tables may be
  missing (\<open>None\<close>).
\<close>

record staking_summary =
  currentEpochIndex :: int
  currentTotalStake :: "nat option"
  currentOperators :: "jsmap option"
  currentEpochRewards :: "jsmap option"

text \<open>A block: its hash and the staking summary of each domain in the state at that hash.\<close>

record block =
  block_hash :: string
  domainStakingSummary :: "nat \<Rightarrow> staking_summary option"

record api =
  header_number :: int
  block_at :: "int \<Rightarrow> block"

section \<open>Decimal strings and BigInt\<close>

text \<open>
  \<^verbatim>\<open>toString()\<close> of a non-negative integer of any size, and \<^verbatim>\<open>String\<close> of a number that
  holds a non-negative safe integer: the decimal digits, most significant first.
  \<open>digit_char\<close> is only applied to a digit from 0 to 9.
\<close>

definition digit_char :: "nat \<Rightarrow> char" where
  "digit_char d = ''0123456789'' ! d"

fun decimal :: "nat \<Rightarrow> string" where
  "decimal n = (if n < 10 then [digit_char n] else decimal (n div 10) @ [digit_char (n mod 10)])"

declare decimal.simps [simp del]

text \<open>The value of one digit in a base up to 16, \<open>None\<close> when the character is no digit of it.\<close>

definition digit_val :: "nat \<Rightarrow> char \<Rightarrow> nat option" where
  "digit_val base c =
     (let k = (of_char c :: nat);
          v = (if 48 \<le> k \<and> k \<le> 57 then Some (k - 48)
               else if 97 \<le> k \<and> k \<le> 102 then Some (k - 87)
               else if 65 \<le> k \<and> k \<le> 70 then Some (k - 55)
               else None)
      in case v of None \<Rightarrow> None | Some d \<Rightarrow> if d < base then Some d else None)"

fun digits_val :: "nat \<Rightarrow> nat \<Rightarrow> string \<Rightarrow> nat option" where
  "digits_val base acc [] = Some acc"
| "digits_val base acc (c # cs) =
     (case digit_val base c of None \<Rightarrow> None
      | Some d \<Rightarrow> digits_val base (acc * base + d) cs)"

text \<open>\<^verbatim>\<open>toString()\<close> of a BigInt.\<close>

definition bigint_toString :: "int \<Rightarrow> string" where
  "bigint_toString i = (if i < 0 then CHR ''-'' # decimal (nat (- i)) else decimal (nat i))"

text \<open>
  The white space and line terminators with a code below 256: tab, line feed, vertical
  tab, form feed, carriage return, space and no-break space.
\<close>

definition is_whitespace :: "char \<Rightarrow> bool" where
  "is_whitespace c \<longleftrightarrow> (of_char c :: nat) \<in> {9, 10, 11, 12, 13, 32, 160}"

definition trim :: "string \<Rightarrow> string" where
  "trim s = rev (dropWhile is_whitespace (rev (dropWhile is_whitespace s)))"

text \<open>A non-empty run of digits of the base, as an integer.\<close>

definition digits :: "nat \<Rightarrow> string \<Rightarrow> int option" where
  "digits base ds = (if ds = [] then None else map_option int (digits_val base 0 ds))"

text \<open>
  \<^verbatim>\<open>BigInt(s)\<close> on a string, after the grammar of the language: white space around the
  literal is dropped; nothing is zero; the prefixes \<^verbatim>\<open>0x\<close>, \<^verbatim>\<open>0o\<close>, \<^verbatim>\<open>0b\<close> (in either
  case) are followed by digits of base 16, 8, 2; otherwise decimal digits follow an
  optional sign. \<open>None\<close> is the SyntaxError.
\<close>

definition BigInt :: "string \<Rightarrow> int option" where
  "BigInt s =
     (let t = trim s in
      if t = [] then Some 0
      else if take 2 t = ''0x'' \<or> take 2 t = ''0X'' then digits 16 (drop 2 t)
      else if take 2 t = ''0o'' \<or> take 2 t = ''0O'' then digits 8 (drop 2 t)
      else if take 2 t = ''0b'' \<or> take 2 t = ''0B'' then digits 2 (drop 2 t)
      else if hd t = CHR ''+'' then digits 10 (tl t)
      else if hd t = CHR ''-'' then map_option uminus (digits 10 (tl t))
      else digits 10 t)"

section \<open>The extraction script\<close>

text \<open>
  The run's constants, read once from the command line. \<^verbatim>\<open>--from\<close> and \<^verbatim>\<open>--to\<close> are
  \<^verbatim>\<open>current\<close> or the digits of an integer; \<^verbatim>\<open>--from\<close> may be missing, \<^verbatim>\<open>--to\<close> is
  \<^verbatim>\<open>current\<close> when it is.
\<close>

datatype epoch_arg = Current | Epoch int

record args =
  DOMAIN_ID :: nat
  FROM :: "epoch_arg option"
  TO :: epoch_arg
  APPEND :: bool

text \<open>\<^verbatim>\<open>String(v)\<close> on a JSON value.\<close>

fun js_String :: "jsval \<Rightarrow> string" where
  "js_String VNull = ''null''"
| "js_String (VNum w) = decimal (unat w)"
| "js_String (VStr s) = s"
| "js_String (VObj s) = s"

text \<open>
  The string \<^verbatim>\<open>mapToObj\<close> stores for one value of the JSON form: an object's
  \<^verbatim>\<open>toString()\<close>; \<^verbatim>\<open>BigInt(v).toString()\<close> for a string that starts with \<^verbatim>\<open>0x\<close>;
  \<^verbatim>\<open>String(v)\<close> otherwise. \<open>None\<close> is the exception of \<^verbatim>\<open>BigInt\<close>.
\<close>

fun json_string :: "jsval \<Rightarrow> string option" where
  "json_string (VObj s) = Some s"
| "json_string (VStr s) =
     (if take 2 s = ''0x'' then map_option bigint_toString (BigInt s)
      else Some (js_String (VStr s)))"
| "json_string v = Some (js_String v)"

text \<open>
  The two loops of \<^verbatim>\<open>mapToObj\<close> over the entries, filling \<^verbatim>\<open>out\<close>. In the first the
  key is \<^verbatim>\<open>k.toNumber()\<close> and the value \<^verbatim>\<open>v.toString()\<close>. An exception leaves the
  loop; the \<^verbatim>\<open>catch {}\<close> then returns \<^verbatim>\<open>out\<close> as filled so far.
\<close>

fun fill_entries :: "(string \<rightharpoonup> string) \<Rightarrow> (nat \<times> nat) list \<Rightarrow> (string \<rightharpoonup> string)" where
  "fill_entries out [] = out"
| "fill_entries out ((k, v) # kvs) =
     (if k < 2 ^ 53 then fill_entries (out(decimal k \<mapsto> decimal v)) kvs else out)"

fun fill_json :: "(string \<rightharpoonup> string) \<Rightarrow> (string \<times> jsval) list \<Rightarrow> (string \<rightharpoonup> string)" where
  "fill_json out [] = out"
| "fill_json out ((k, v) # kvs) =
     (case json_string v of None \<Rightarrow> out
      | Some s \<Rightarrow> fill_json (out(k \<mapsto> s)) kvs)"

fun mapToObj :: "jsmap option \<Rightarrow> (string \<rightharpoonup> string)" where
  "mapToObj None = Map.empty"
| "mapToObj (Some (MapLike kvs)) = fill_entries Map.empty kvs"
| "mapToObj (Some (JsonLike kvs)) = fill_json Map.empty kvs"

text \<open>What \<^verbatim>\<open>readSummaryAt\<close> returns for a block whose state has a summary.\<close>

record summary =
  blockNumber :: int
  hash :: string
  epoch :: int
  totalStake :: "string option"
  operatorStakes :: "string \<rightharpoonup> string"
  rewards :: "string \<rightharpoonup> string"

definition readSummaryAt :: "args \<Rightarrow> api \<Rightarrow> int \<Rightarrow> summary option" where
  "readSummaryAt a api n =
     (let b = block_at api n in
      case domainStakingSummary b (DOMAIN_ID a) of
        None \<Rightarrow> None
      | Some s \<Rightarrow> Some \<lparr> blockNumber = n,
                         hash = block_hash b,
                         epoch = currentEpochIndex s,
                         totalStake = map_option decimal (currentTotalStake s),
                         operatorStakes = mapToObj (currentOperators s),
                         rewards = mapToObj (currentEpochRewards s) \<rparr>)"

definition epochAt :: "args \<Rightarrow> api \<Rightarrow> int \<Rightarrow> int option" where
  "epochAt a api n = map_option epoch (readSummaryAt a api n)"

text \<open>
  The errors the script throws: \<^verbatim>\<open>Cannot read epoch at head\<close>,
  \<^verbatim>\<open>target epoch ... > current ...\<close>, \<^verbatim>\<open>Failed to locate start\<close> (all three in
  \<^verbatim>\<open>findEpochStartBlock\<close>) and \<^verbatim>\<open>Cannot read current epoch\<close> (in \<^verbatim>\<open>main\<close>).
\<close>

datatype error =
    EpochIndexUnavailable
  | EpochNotYetReached
  | BoundarySearchInconsistent
  | CannotReadCurrentEpoch

text \<open>
  One pass through the body of \<^verbatim>\<open>while (lo < hi)\<close>, on the pair \<open>(lo, hi)\<close>. The
  variable \<^verbatim>\<open>ans\<close> of the source is assigned and never read; it is left out. The
  single-epoch reader script has the same loop in its \<^verbatim>\<open>findEpochStartBlock\<close>, with a
  step counter that only feeds its log.
\<close>

definition search_step :: "args \<Rightarrow> api \<Rightarrow> int \<Rightarrow> int \<times> int \<Rightarrow> int \<times> int" where
  "search_step a api targetEpoch s =
     (let lo = fst s; hi = snd s; mid = (lo + hi) div 2 in
      case epochAt a api mid of
        None \<Rightarrow> (mid + 1, hi)
      | Some e \<Rightarrow> if e \<ge> targetEpoch then (lo, mid) else (mid + 1, hi))"

function search_loop :: "args \<Rightarrow> api \<Rightarrow> int \<Rightarrow> int \<times> int \<Rightarrow> int" where
  "search_loop a api targetEpoch s =
     (if fst s < snd s then search_loop a api targetEpoch (search_step a api targetEpoch s)
      else fst s)"
  by pat_completeness auto
termination
  by (relation "measure (\<lambda>(a, api, t, s). nat (snd s - fst s))")
     (auto simp: search_step_def Let_def split: option.splits)

declare search_loop.simps [simp del]

definition findEpochStartBlock :: "args \<Rightarrow> api \<Rightarrow> int \<Rightarrow> error + int" where
  "findEpochStartBlock a api targetEpoch =
     (let hi = header_number api in
      case epochAt a api hi of
        None \<Rightarrow> Inl EpochIndexUnavailable
      | Some cur \<Rightarrow>
          if targetEpoch > cur then Inl EpochNotYetReached
          else (let lo = search_loop a api targetEpoch (1, hi) in
                if epochAt a api lo \<noteq> Some targetEpoch then Inl BoundarySearchInconsistent
                else Inr lo))"

text \<open>
  One element of \<^verbatim>\<open>rows\<close>. A field the source leaves \<^verbatim>\<open>undefined\<close> (the snapshot it
  is read from is \<^verbatim>\<open>null\<close>) or \<^verbatim>\<open>null\<close> is \<open>None\<close>.
\<close>

record row =
  domainId :: nat
  epoch :: int
  startBlock :: int
  startHash :: "string option"
  endBlock :: int
  endHash :: "string option"
  totalStake :: "string option"
  operatorStakes :: "(string \<rightharpoonup> string) option"
  rewards :: "(string \<rightharpoonup> string) option"

text \<open>
  The variables of \<^verbatim>\<open>main\<close> that its loop changes, and the content of the file
  \<^verbatim>\<open>OUT\<close> (\<open>None\<close> while the file does not exist). \<^verbatim>\<open>fs.writeFileSync\<close> replaces the
  content by the rows it is given.
\<close>

record state =
  rows :: "row list"
  lastWrittenLength :: nat
  OUT_file :: "row list option"

definition write_rows :: "state \<Rightarrow> state" where
  "write_rows st = st\<lparr> OUT_file := Some (rows st), lastWrittenLength := length (rows st) \<rparr>"

definition new_row :: "args \<Rightarrow> int \<Rightarrow> int \<Rightarrow> int \<Rightarrow> summary option \<Rightarrow> summary option \<Rightarrow> row" where
  "new_row a ep start_block end_block start_snap end_snap =
     \<lparr> domainId = DOMAIN_ID a,
       epoch = ep,
       startBlock = start_block,
       startHash = map_option hash start_snap,
       endBlock = end_block,
       endHash = map_option hash end_snap,
       totalStake = Option.bind start_snap summary.totalStake,
       operatorStakes = map_option summary.operatorStakes start_snap,
       rewards = map_option summary.rewards end_snap \<rparr>"

text \<open>
  The body of \<^verbatim>\<open>for (let ep = startEpoch; ep <= endEpoch; ep++)\<close>. The first call
  of \<^verbatim>\<open>findEpochStartBlock\<close> is outside the \<^verbatim>\<open>try\<close>: its error leaves \<^verbatim>\<open>main\<close>
  (\<open>Inl\<close>). The second is inside: any error of it is caught, and the iteration
  ends with \<^verbatim>\<open>continue\<close>.
\<close>

definition main_iter :: "args \<Rightarrow> api \<Rightarrow> int \<Rightarrow> state \<Rightarrow> error + state" where
  "main_iter a api ep st =
     (case findEpochStartBlock a api ep of
        Inl e \<Rightarrow> Inl e
      | Inr start_block \<Rightarrow>
          (case findEpochStartBlock a api (ep + 1) of
             Inl e \<Rightarrow>
               Inr (if length (rows st) > lastWrittenLength st then write_rows st else st)
           | Inr nextStart \<Rightarrow>
               (let end_block = nextStart - 1;
                    start_snap = readSummaryAt a api start_block;
                    end_snap = readSummaryAt a api end_block
                in Inr (write_rows
                     (st\<lparr> rows := rows st @ [new_row a ep start_block end_block start_snap end_snap] \<rparr>)))))"

text \<open>
  The loop from \<open>ep\<close> on. The result is the error that left the loop, if any, and
  the state at that moment.
\<close>

function main_loop :: "args \<Rightarrow> api \<Rightarrow> int \<Rightarrow> int \<Rightarrow> state \<Rightarrow> error option \<times> state" where
  "main_loop a api ep endEpoch st =
     (if ep \<le> endEpoch
      then (case main_iter a api ep st of
              Inl e \<Rightarrow> (Some e, st)
            | Inr st' \<Rightarrow> main_loop a api (ep + 1) endEpoch st')
      else (None, st))"
  by pat_completeness auto
termination
  by (relation "measure (\<lambda>(a, api, ep, endEpoch, st). nat (endEpoch + 1 - ep))") auto

declare main_loop.simps [simp del]

definition resolve_from :: "epoch_arg option \<Rightarrow> int \<Rightarrow> int" where
  "resolve_from f headEpoch =
     (case f of None \<Rightarrow> 0 | Some Current \<Rightarrow> headEpoch | Some (Epoch n) \<Rightarrow> n)"

definition resolve_to :: "epoch_arg \<Rightarrow> int \<Rightarrow> int" where
  "resolve_to t headEpoch = (case t of Current \<Rightarrow> headEpoch | Epoch n \<Rightarrow> n)"

text \<open>
  \<^verbatim>\<open>existing\<close>: the parsed content of \<^verbatim>\<open>OUT\<close> when \<^verbatim>\<open>--append\<close> is given and the file
  exists, no rows otherwise.
\<close>

definition existing_rows :: "args \<Rightarrow> row list option \<Rightarrow> row list" where
  "existing_rows a file = (if APPEND a \<and> file \<noteq> None then the file else [])"

text \<open>
  The state of \<^verbatim>\<open>main\<close> when its loop starts: \<^verbatim>\<open>rows = [...existing]\<close> and
  \<^verbatim>\<open>lastWrittenLength = rows.length\<close>.
\<close>

definition init_state :: "args \<Rightarrow> row list option \<Rightarrow> state" where
  "init_state a file = \<lparr> rows = existing_rows a file,
       lastWrittenLength = length (existing_rows a file), OUT_file = file \<rparr>"

text \<open>
  \<^verbatim>\<open>main\<close>, from the content of \<^verbatim>\<open>OUT\<close> before the run to the error that ended the run
  (\<open>None\<close> when it returned) and the content of \<^verbatim>\<open>OUT\<close> after it.
\<close>

definition main :: "args \<Rightarrow> api \<Rightarrow> row list option \<Rightarrow> error option \<times> row list option" where
  "main a api file =
     (case epochAt a api (header_number api) of
        None \<Rightarrow> (Some CannotReadCurrentEpoch, file)
      | Some headEpoch \<Rightarrow>
          (let startEpoch = resolve_from (FROM a) headEpoch;
               endEpoch = resolve_to (TO a) headEpoch
           in case main_loop a api startEpoch endEpoch (init_state a file) of
                (Some e, st) \<Rightarrow> (Some e, OUT_file st)
              | (None, st) \<Rightarrow>
                  (None, OUT_file (if length (rows st) > lastWrittenLength st
                                   then write_rows st else st))))"

section \<open>Properties stated about the ledger, and the ledgers used as examples\<close>

text \<open>
  \<open>below r t\<close>: the read \<open>r\<close> of the epoch index is under the target \<open>t\<close>, a
  missing summary counting as under every target.
\<close>

definition below :: "int option \<Rightarrow> int \<Rightarrow> bool" where
  "below r t = (case r of None \<Rightarrow> True | Some e \<Rightarrow> e < t)"

text \<open>
  The epoch index does not decrease from height 1 to the head: a height with a
  summary is followed by heights with a summary and an epoch index at least as large.
\<close>

definition nondecreasing :: "args \<Rightarrow> api \<Rightarrow> bool" where
  "nondecreasing a api \<longleftrightarrow>
     (\<forall>h1 h2. 1 \<le> h1 \<and> h1 \<le> h2 \<and> h2 \<le> header_number api \<longrightarrow>
        (case epochAt a api h1 of None \<Rightarrow> True
         | Some e1 \<Rightarrow> (case epochAt a api h2 of None \<Rightarrow> False | Some e2 \<Rightarrow> e1 \<le> e2)))"

text \<open>The target epoch is the epoch index of some height from 1 to the head.\<close>

definition observed :: "args \<Rightarrow> api \<Rightarrow> int \<Rightarrow> bool" where
  "observed a api t \<longleftrightarrow> (\<exists>h. 1 \<le> h \<and> h \<le> header_number api \<and> epochAt a api h = Some t)"

text \<open>
  One pass of \<^verbatim>\<open>while (lo < hi)\<close>: the body when the condition holds, nothing once it
  fails.
\<close>

definition search_pass :: "args \<Rightarrow> api \<Rightarrow> int \<Rightarrow> int \<times> int \<Rightarrow> int \<times> int" where
  "search_pass a api t s = (if fst s < snd s then search_step a api t s else s)"

text \<open>A ledger with head \<open>head\<close> whose epoch index at height \<open>h\<close> is \<open>f h\<close>, for every domain.\<close>

definition oracle_api :: "int \<Rightarrow> (int \<Rightarrow> int option) \<Rightarrow> api" where
  "oracle_api head f =
     \<lparr> header_number = head,
       block_at = (\<lambda>h. \<lparr> block_hash = decimal (nat h),
                          domainStakingSummary = (\<lambda>d. map_option
                             (\<lambda>e. \<lparr> currentEpochIndex = e, currentTotalStake = None,
                                     currentOperators = None, currentEpochRewards = None \<rparr>)
                             (f h)) \<rparr>) \<rparr>"

definition default_args :: args where
  "default_args = \<lparr> DOMAIN_ID = 0, FROM = None, TO = Current, APPEND = False \<rparr>"

text \<open>Epoch 0 below height 100, epoch 1 from 100 to 199, epoch 2 from 200 on; head 250.\<close>

definition scenario_api :: api where
  "scenario_api =
     oracle_api 250 (\<lambda>h. if h < 100 then Some 0 else if h < 200 then Some 1 else Some 2)"

text \<open>No summary at heights 1 to 9, epoch 0 from height 10 on; head 40.\<close>

definition late_start_api :: api where
  "late_start_api = oracle_api 40 (\<lambda>h. if h < 10 then None else Some 0)"

text \<open>Epoch 0 below height 5, epoch 2 from height 5 on: no height has epoch 1. Head 10.\<close>

definition skipping_api :: api where
  "skipping_api = oracle_api 10 (\<lambda>h. if h < 5 then Some 0 else Some 2)"

text \<open>No summary below height 3, epoch 1 from height 3 on: no height has epoch 0. Head 8.\<close>

definition starts_at_one_api :: api where
  "starts_at_one_api = oracle_api 8 (\<lambda>h. if h < 3 then None else Some 1)"

text \<open>No summary at any height; head 5.\<close>

definition empty_api :: api where
  "empty_api = oracle_api 5 (\<lambda>h. None)"

text \<open>Epoch 0 at heights 1 to 3, no summary at height 4, epoch 1 at height 5; head 5.\<close>

definition hole_api :: api where
  "hole_api = oracle_api 5 (\<lambda>h. if h < 4 then Some 0 else if h = 4 then None else Some 1)"

text \<open>The ledger of \<open>scenario_api\<close> later on: epoch 3 from height 300 on; head 350.\<close>

definition later_api :: api where
  "later_api = oracle_api 350 (\<lambda>h. if h < 100 then Some 0 else if h < 200 then Some 1
                                     else if h < 300 then Some 2 else Some 3)"

text \<open>A run over the epochs \<open>first_epoch\<close> to \<open>last_epoch\<close> of domain 0.\<close>

definition range_args :: "int \<Rightarrow> int \<Rightarrow> bool \<Rightarrow> args" where
  "range_args first_epoch last_epoch app =
     \<lparr> DOMAIN_ID = 0, FROM = Some (Epoch first_epoch), TO = Epoch last_epoch, APPEND = app \<rparr>"

text \<open>
  The row that the pass for epoch \<open>ep\<close> appends: none unless the start of \<open>ep\<close> and
  the start of \<open>ep + 1\<close> are both found.
\<close>

definition epoch_row :: "args \<Rightarrow> api \<Rightarrow> int \<Rightarrow> row option" where
  "epoch_row a api ep =
     (case findEpochStartBlock a api ep of
        Inl e \<Rightarrow> None
      | Inr s \<Rightarrow>
          (case findEpochStartBlock a api (ep + 1) of
             Inl e \<Rightarrow> None
           | Inr n \<Rightarrow> Some (new_row a ep s (n - 1) (readSummaryAt a api s)
                                              (readSummaryAt a api (n - 1)))))"

text \<open>The rows of the epochs from \<open>ep\<close> to \<open>k\<close> that are complete, in ascending order.\<close>

definition completed_rows :: "args \<Rightarrow> api \<Rightarrow> int \<Rightarrow> int \<Rightarrow> row list" where
  "completed_rows a api ep k = List.map_filter (epoch_row a api) [ep..k]"

text \<open>The rows in the file \<^verbatim>\<open>OUT\<close>, none while it does not exist.\<close>

definition persisted :: "row list option \<Rightarrow> row list" where
  "persisted file = (case file of None \<Rightarrow> [] | Some rs \<Rightarrow> rs)"






section \<open>The search loop\<close>

lemma epochAt_oracle: "epochAt a (oracle_api head f) h = f h"
  by (cases "f h") (simp_all add: epochAt_def readSummaryAt_def oracle_api_def Let_def)

lemma header_oracle: "header_number (oracle_api head f) = head"
  by (simp add: oracle_api_def)

lemma search_step_shrinks:
  assumes "fst s < snd s"
  shows "fst s \<le> fst (search_step a api t s)"
    and "fst (search_step a api t s) \<le> snd (search_step a api t s)"
    and "snd (search_step a api t s) \<le> snd s"
    and "snd (search_step a api t s) - fst (search_step a api t s) < snd s - fst s"
  using assms by (auto simp: search_step_def Let_def split: option.splits)

lemma search_loop_unfold:
  "fst s < snd s \<Longrightarrow> search_loop a api t s = search_loop a api t (search_step a api t s)"
  by (subst search_loop.simps) simp

lemma search_loop_exit: "\<not> fst s < snd s \<Longrightarrow> search_loop a api t s = fst s"
  by (simp add: search_loop.simps)

lemma search_pass_fixed:
  "\<not> fst s < snd s \<Longrightarrow> (search_pass a api t ^^ n) s = s"
  by (induction n) (simp_all add: search_pass_def)

lemma search_loop_passes:
  "nat (snd s - fst s) \<le> n \<Longrightarrow>
     \<not> fst ((search_pass a api t ^^ n) s) < snd ((search_pass a api t ^^ n) s)
     \<and> search_loop a api t s = fst ((search_pass a api t ^^ n) s)"
proof (induction a api t s arbitrary: n rule: search_loop.induct)
  case (1 a api t s)
  show ?case
  proof (cases "fst s < snd s")
    case False
    then show ?thesis by (simp add: search_pass_fixed search_loop_exit)
  next
    case True
    let ?s' = "search_step a api t s"
    from True 1(2) obtain k where k: "n = Suc k" by (cases n) auto
    have "nat (snd ?s' - fst ?s') \<le> k"
      using search_step_shrinks(4)[OF True, of a api t] 1(2) k by linarith
    from 1(1)[OF True this]
    have "\<not> fst ((search_pass a api t ^^ k) ?s') < snd ((search_pass a api t ^^ k) ?s')"
      and "search_loop a api t ?s' = fst ((search_pass a api t ^^ k) ?s')" by simp_all
    moreover have "(search_pass a api t ^^ n) s = (search_pass a api t ^^ k) ?s'"
      using True k by (simp add: funpow_swap1 search_pass_def)
    ultimately show ?thesis using search_loop_unfold[OF True, of a api t] by simp
  qed
qed

lemma search_loop_range:
  "fst s \<le> snd s \<Longrightarrow> fst s \<le> search_loop a api t s \<and> search_loop a api t s \<le> snd s"
proof (induction a api t s rule: search_loop.induct)
  case (1 a api t s)
  show ?case
  proof (cases "fst s < snd s")
    case False
    with 1(2) show ?thesis by (simp add: search_loop_exit)
  next
    case True
    note sh = search_step_shrinks[OF True, of a api t]
    from 1(1)[OF True sh(2)] sh search_loop_unfold[OF True, of a api t]
    show ?thesis by linarith
  qed
qed

text \<open>
  Under a non-decreasing epoch index the loop keeps, below \<open>lo\<close>, only heights under
  the target and, at \<open>hi\<close>, a height not under it: it ends at the first height whose
  epoch index reaches the target.
\<close>

lemma search_loop_first:
  assumes "nondecreasing a api"
    and "1 \<le> fst s" and "fst s \<le> snd s" and "snd s \<le> header_number api"
    and "\<forall>h. 1 \<le> h \<and> h < fst s \<longrightarrow> below (epochAt a api h) t"
    and "\<not> below (epochAt a api (snd s)) t"
  shows "\<not> below (epochAt a api (search_loop a api t s)) t
       \<and> (\<forall>h. 1 \<le> h \<and> h < search_loop a api t s \<longrightarrow> below (epochAt a api h) t)"
  using assms
proof (induction a api t s rule: search_loop.induct)
  case (1 a api t s)
  show ?case
  proof (cases "fst s < snd s")
    case False
    with 1(4) have "fst s = snd s" by simp
    with 1(6,7) search_loop_exit[OF False, of a api t] show ?thesis by simp
  next
    case True
    let ?s' = "search_step a api t s"
    let ?mid = "(fst s + snd s) div 2"
    note sh = search_step_shrinks[OF True, of a api t]
    have mid: "fst s \<le> ?mid" "?mid < snd s" using True by linarith+
    have lo': "\<forall>h. 1 \<le> h \<and> h < fst ?s' \<longrightarrow> below (epochAt a api h) t"
    proof (cases "below (epochAt a api ?mid) t")
      case False
      then have "fst ?s' = fst s"
        by (auto simp: search_step_def Let_def below_def split: option.splits)
      with 1(6) show ?thesis by simp
    next
      case under: True
      have "below (epochAt a api h) t" if h: "1 \<le> h" "h \<le> ?mid" for h
      proof -
        from h mid 1(5) have "1 \<le> h \<and> h \<le> ?mid \<and> ?mid \<le> header_number api" by linarith
        with 1(2)
        have "case epochAt a api h of None \<Rightarrow> True
              | Some e1 \<Rightarrow> (case epochAt a api ?mid of None \<Rightarrow> False | Some e2 \<Rightarrow> e1 \<le> e2)"
          unfolding nondecreasing_def by blast
        with under show ?thesis by (auto simp: below_def split: option.splits)
      qed
      moreover from under have "fst ?s' = ?mid + 1"
        by (auto simp: search_step_def Let_def below_def split: option.splits)
      ultimately show ?thesis by simp
    qed
    have hi': "\<not> below (epochAt a api (snd ?s')) t"
      using 1(7) by (auto simp: search_step_def Let_def below_def split: option.splits)
    have "1 \<le> fst ?s'" using sh(1) 1(3) by linarith
    moreover have "snd ?s' \<le> header_number api" using sh(3) 1(5) by linarith
    ultimately show ?thesis
      using 1(1)[OF True 1(2) _ sh(2) _ lo' hi'] search_loop_unfold[OF True, of a api t]
      by simp
  qed
qed

section \<open>The boundary locator\<close>

lemma findEpochStartBlock_Inr:
  "findEpochStartBlock a api t = Inr h \<longleftrightarrow>
     (\<exists>cur. epochAt a api (header_number api) = Some cur \<and> t \<le> cur)
     \<and> h = search_loop a api t (1, header_number api)
     \<and> epochAt a api h = Some t"
  by (auto simp: findEpochStartBlock_def Let_def split: option.splits)

lemma findEpochStartBlock_monotone:
  assumes mono: "nondecreasing a api" and obs: "observed a api t"
  shows "\<exists>r. findEpochStartBlock a api t = Inr r \<and> 1 \<le> r \<and> r \<le> header_number api
           \<and> epochAt a api r = Some t
           \<and> (\<forall>h. 1 \<le> h \<and> h < r \<longrightarrow> below (epochAt a api h) t)"
proof -
  let ?head = "header_number api"
  let ?r = "search_loop a api t (1, ?head)"
  from obs obtain h0 where h0: "1 \<le> h0" "h0 \<le> ?head" "epochAt a api h0 = Some t"
    unfolding observed_def by blast
  from mono h0 have "case epochAt a api h0 of None \<Rightarrow> True
      | Some e1 \<Rightarrow> (case epochAt a api ?head of None \<Rightarrow> False | Some e2 \<Rightarrow> e1 \<le> e2)"
    unfolding nondecreasing_def by blast
  with h0(3) obtain cur where cur: "epochAt a api ?head = Some cur" "t \<le> cur"
    by (auto split: option.splits)
  have head1: "1 \<le> ?head" using h0 by linarith
  have top: "\<not> below (epochAt a api ?head) t" using cur by (simp add: below_def)
  have "\<forall>h. 1 \<le> h \<and> h < fst (1::int, ?head) \<longrightarrow> below (epochAt a api h) t" by auto
  from search_loop_first[OF mono, of "(1, ?head)" t, OF _ _ _ this] head1 top
  have first: "\<not> below (epochAt a api ?r) t"
    "\<forall>h. 1 \<le> h \<and> h < ?r \<longrightarrow> below (epochAt a api h) t"
    by simp_all
  have range: "1 \<le> ?r" "?r \<le> ?head"
    using search_loop_range[of "(1, ?head)" a api t] head1 by simp_all
  have "\<not> h0 < ?r" using first(2) h0 by (auto simp: below_def)
  then have "?r \<le> h0" by simp
  with mono range h0 have "case epochAt a api ?r of None \<Rightarrow> True
      | Some e1 \<Rightarrow> (case epochAt a api h0 of None \<Rightarrow> False | Some e2 \<Rightarrow> e1 \<le> e2)"
    unfolding nondecreasing_def by blast
  with first(1) h0(3) have "epochAt a api ?r = Some t"
    by (auto simp: below_def split: option.splits)
  with cur first(2) range show ?thesis
    by (simp add: findEpochStartBlock_Inr)
qed

lemma nondecreasing_scenario: "nondecreasing a scenario_api"
  by (auto simp: nondecreasing_def scenario_api_def epochAt_oracle header_oracle)

lemma nondecreasing_late_start: "nondecreasing a late_start_api"
  by (auto simp: nondecreasing_def late_start_api_def epochAt_oracle header_oracle)

lemma nondecreasing_skipping: "nondecreasing a skipping_api"
  by (auto simp: nondecreasing_def skipping_api_def epochAt_oracle header_oracle)

lemma nondecreasing_starts_at_one: "nondecreasing a starts_at_one_api"
  by (auto simp: nondecreasing_def starts_at_one_api_def epochAt_oracle header_oracle)

text \<open>
  C10. The search loop of \<^verbatim>\<open>findEpochStartBlock\<close> terminates for every ledger, every
  target and every pair of bounds: after \<open>hi - lo\<close> passes the condition \<open>lo < hi\<close>
  is false, and the value of the loop is the \<open>lo\<close> reached then. A pass made while
  \<open>lo < hi\<close> either sets \<open>hi\<close> to \<open>mid\<close>, which is under \<open>hi\<close>, or sets \<open>lo\<close> to
  \<open>mid + 1\<close>, which is over \<open>lo\<close>; it keeps \<open>lo \<le> hi\<close> and makes \<open>hi - lo\<close> smaller.
\<close>

theorem search_loop_terminates:
  "(\<not> fst ((search_pass a api t ^^ nat (hi - lo)) (lo, hi))
        < snd ((search_pass a api t ^^ nat (hi - lo)) (lo, hi))
    \<and> search_loop a api t (lo, hi) = fst ((search_pass a api t ^^ nat (hi - lo)) (lo, hi)))
   \<and> (lo < hi \<longrightarrow>
        (search_step a api t (lo, hi) = (lo, (lo + hi) div 2) \<and> (lo + hi) div 2 < hi
         \<or> search_step a api t (lo, hi) = ((lo + hi) div 2 + 1, hi) \<and> lo < (lo + hi) div 2 + 1)
        \<and> fst (search_step a api t (lo, hi)) \<le> snd (search_step a api t (lo, hi))
        \<and> snd (search_step a api t (lo, hi)) - fst (search_step a api t (lo, hi)) < hi - lo)"
proof -
  have "lo < hi \<Longrightarrow> lo \<le> (lo + hi) div 2 \<and> (lo + hi) div 2 < hi" by linarith
  then have "lo < hi \<longrightarrow>
        (search_step a api t (lo, hi) = (lo, (lo + hi) div 2) \<and> (lo + hi) div 2 < hi
         \<or> search_step a api t (lo, hi) = ((lo + hi) div 2 + 1, hi) \<and> lo < (lo + hi) div 2 + 1)"
    by (auto simp: search_step_def Let_def split: option.splits)
  moreover have "lo < hi \<longrightarrow>
        fst (search_step a api t (lo, hi)) \<le> snd (search_step a api t (lo, hi))
        \<and> snd (search_step a api t (lo, hi)) - fst (search_step a api t (lo, hi)) < hi - lo"
    using search_step_shrinks(2,4)[of "(lo, hi)" a api t] by simp
  ultimately show ?thesis
    using search_loop_passes[of "(lo, hi)" "nat (hi - lo)" a api t] by simp
qed

theorem search_loop_terminates_witness:
  "(1::int) < 250
   \<and> search_step default_args scenario_api 1 (1, 250) = (1, 125)
   \<and> search_loop default_args scenario_api 1 (1, 250) = 100
   \<and> \<not> fst ((search_pass default_args scenario_api 1 ^^ 249) (1, 250))
        < snd ((search_pass default_args scenario_api 1 ^^ 249) (1, 250))"
proof -
  have "search_step default_args scenario_api 1 (1, 250) = (1, 125)" by code_simp
  moreover have "search_loop default_args scenario_api 1 (1, 250) = 100" by code_simp
  ultimately show ?thesis
    using search_loop_terminates[where a = default_args and api = scenario_api and t = 1 and lo = 1 and hi = 250] by simp
qed


text \<open>
  C4. A height returned by \<^verbatim>\<open>findEpochStartBlock\<close> has exactly the target as its epoch
  index; when the head has an epoch index not under the target and the height the loop
  ends at has another epoch index than the target (or none), the call fails with
  \<^verbatim>\<open>Failed to locate start\<close> instead of returning.
\<close>

theorem verified_before_return:
  "(findEpochStartBlock a api t = Inr h \<longrightarrow> epochAt a api h = Some t)
   \<and> (epochAt a api (header_number api) = Some cur \<and> t \<le> cur
       \<and> epochAt a api (search_loop a api t (1, header_number api)) \<noteq> Some t
      \<longrightarrow> findEpochStartBlock a api t = Inl BoundarySearchInconsistent)"
  by (auto simp: findEpochStartBlock_def Let_def split: option.splits)

theorem verified_before_return_witness:
  "findEpochStartBlock default_args scenario_api 1 = Inr 100
   \<and> epochAt default_args scenario_api 100 = Some 1
   \<and> epochAt default_args skipping_api (header_number skipping_api) = Some 2 \<and> (1::int) \<le> 2
   \<and> epochAt default_args skipping_api (search_loop default_args skipping_api 1 (1, header_number skipping_api)) \<noteq> Some 1
   \<and> findEpochStartBlock default_args skipping_api 1 = Inl BoundarySearchInconsistent"
proof -
  have 1: "findEpochStartBlock default_args scenario_api 1 = Inr 100" by code_simp
  have 2: "epochAt default_args skipping_api (header_number skipping_api) = Some 2" by code_simp
  have 3: "epochAt default_args skipping_api (search_loop default_args skipping_api 1 (1, header_number skipping_api)) \<noteq> Some 1"
    by code_simp
  show ?thesis
    using verified_before_return[where a = default_args and api = scenario_api and t = 1 and h = 100]
      verified_before_return[where a = default_args and api = skipping_api and t = 1 and cur = 2] 1 2 3
    by simp
qed

lemma observed_oracle:
  "1 \<le> h \<Longrightarrow> h \<le> head \<Longrightarrow> f h = Some t \<Longrightarrow> observed a (oracle_api head f) t"
  unfolding observed_def epochAt_oracle header_oracle by blast

lemma findEpochStartBlock_observed:
  assumes "findEpochStartBlock a api t = Inr h" and "1 \<le> header_number api"
  shows "observed a api t"
proof -
  from assms(1) have h: "h = search_loop a api t (1, header_number api)"
    and e: "epochAt a api h = Some t" unfolding findEpochStartBlock_Inr by blast+
  from search_loop_range[of "(1, header_number api)" a api t] assms(2) h
  have "1 \<le> h \<and> h \<le> header_number api" by simp
  with e show ?thesis unfolding observed_def by blast
qed

text \<open>
  C1, as amended. When the epoch index does not decrease from height 1 to the head and
  the target is the epoch index of some height in that range, \<^verbatim>\<open>findEpochStartBlock\<close>
  returns a height whose epoch index is the target, and that height is 1 or the height
  before it has a smaller epoch index or no summary.
\<close>

theorem start_block_is_boundary:
  assumes "nondecreasing a api" and "observed a api t"
  shows "\<exists>h. findEpochStartBlock a api t = Inr h
           \<and> epochAt a api h = Some t
           \<and> (h = 1 \<or> below (epochAt a api (h - 1)) t)"
proof -
  from findEpochStartBlock_monotone[OF assms] obtain r where
    r: "findEpochStartBlock a api t = Inr r" "1 \<le> r" "epochAt a api r = Some t"
       "\<forall>h. 1 \<le> h \<and> h < r \<longrightarrow> below (epochAt a api h) t" by blast
  have "r = 1 \<or> below (epochAt a api (r - 1)) t"
  proof (cases "r = 1")
    case False
    with r(2) have "1 \<le> r - 1 \<and> r - 1 < r" by linarith
    with r(4) show ?thesis by blast
  qed simp
  with r show ?thesis by blast
qed

theorem start_block_is_boundary_witness:
  "nondecreasing default_args scenario_api \<and> observed default_args scenario_api 1
   \<and> findEpochStartBlock default_args scenario_api 1 = Inr 100
   \<and> epochAt default_args scenario_api 100 = Some 1
   \<and> below (epochAt default_args scenario_api 99) 1"
proof -
  have obs: "observed default_args scenario_api 1"
    unfolding scenario_api_def by (rule observed_oracle[of 100]) simp_all
  have r: "findEpochStartBlock default_args scenario_api 1 = Inr 100" by code_simp
  from start_block_is_boundary[OF nondecreasing_scenario obs] r
  show ?thesis using nondecreasing_scenario obs by simp
qed

text \<open>
  C1 as stated fails: on a ledger whose epoch index goes from 0 to 2 the target 1 lies
  between 0 and the epoch of the head, the index never decreases, and the call fails.
\<close>

theorem start_block_counterexample:
  "nondecreasing default_args skipping_api
   \<and> epochAt default_args skipping_api (header_number skipping_api) = Some 2
   \<and> (0::int) \<le> 1 \<and> (1::int) \<le> 2
   \<and> findEpochStartBlock default_args skipping_api 1 = Inl BoundarySearchInconsistent"
proof -
  have "epochAt default_args skipping_api (header_number skipping_api) = Some 2" by code_simp
  moreover have "findEpochStartBlock default_args skipping_api 1 = Inl BoundarySearchInconsistent"
    by code_simp
  ultimately show ?thesis using nondecreasing_skipping by simp
qed

text \<open>
  C6, as amended. \<^verbatim>\<open>findEpochStartBlock\<close> fails with \<^verbatim>\<open>target epoch > current\<close> exactly
  when the head has an epoch index under the target, and with
  \<^verbatim>\<open>Cannot read epoch at head\<close> exactly when the head has no summary. When the epoch
  index does not decrease and the target is the epoch index of some height from 1 to
  the head, the call succeeds; when the head is at least 1 and no such height exists,
  it does not.
\<close>

theorem locate_failures:
  "(findEpochStartBlock a api t = Inl EpochNotYetReached
      \<longleftrightarrow> (\<exists>cur. epochAt a api (header_number api) = Some cur \<and> cur < t))
   \<and> (findEpochStartBlock a api t = Inl EpochIndexUnavailable
      \<longleftrightarrow> epochAt a api (header_number api) = None)
   \<and> (nondecreasing a api \<and> observed a api t \<longrightarrow> (\<exists>h. findEpochStartBlock a api t = Inr h))
   \<and> (1 \<le> header_number api \<and> \<not> observed a api t
      \<longrightarrow> (\<forall>h. findEpochStartBlock a api t \<noteq> Inr h))"
proof -
  have "findEpochStartBlock a api t = Inl EpochNotYetReached
      \<longleftrightarrow> (\<exists>cur. epochAt a api (header_number api) = Some cur \<and> cur < t)"
    by (auto simp: findEpochStartBlock_def Let_def split: option.splits)
  moreover have "findEpochStartBlock a api t = Inl EpochIndexUnavailable
      \<longleftrightarrow> epochAt a api (header_number api) = None"
    by (auto simp: findEpochStartBlock_def Let_def split: option.splits)
  moreover have "nondecreasing a api \<and> observed a api t \<longrightarrow> (\<exists>h. findEpochStartBlock a api t = Inr h)"
    using findEpochStartBlock_monotone[of a api t] by blast
  moreover have "1 \<le> header_number api \<and> \<not> observed a api t
      \<longrightarrow> (\<forall>h. findEpochStartBlock a api t \<noteq> Inr h)"
    using findEpochStartBlock_observed[of a api t] by blast
  ultimately show ?thesis by blast
qed

theorem locate_failures_witness:
  "epochAt default_args scenario_api (header_number scenario_api) = Some 2 \<and> (2::int) < 3
   \<and> findEpochStartBlock default_args scenario_api 3 = Inl EpochNotYetReached
   \<and> epochAt default_args empty_api (header_number empty_api) = None
   \<and> findEpochStartBlock default_args empty_api 0 = Inl EpochIndexUnavailable
   \<and> nondecreasing default_args late_start_api \<and> observed default_args late_start_api 0
   \<and> findEpochStartBlock default_args late_start_api 0 = Inr 10
   \<and> 1 \<le> header_number starts_at_one_api \<and> \<not> observed default_args starts_at_one_api 0
   \<and> findEpochStartBlock default_args starts_at_one_api 0 \<noteq> Inr 3"
proof -
  have 1: "epochAt default_args scenario_api (header_number scenario_api) = Some 2" by code_simp
  have 2: "epochAt default_args empty_api (header_number empty_api) = None" by code_simp
  have 3: "observed default_args late_start_api 0"
    unfolding late_start_api_def by (rule observed_oracle[of 10]) simp_all
  have 4: "findEpochStartBlock default_args late_start_api 0 = Inr 10" by code_simp
  have 5: "\<not> observed default_args starts_at_one_api 0"
    by (auto simp: observed_def starts_at_one_api_def epochAt_oracle)
  have 6: "1 \<le> header_number starts_at_one_api" by code_simp
  show ?thesis
    using locate_failures[where a = default_args and api = scenario_api and t = 3]
      locate_failures[where a = default_args and api = empty_api and t = 0]
      locate_failures[where a = default_args and api = late_start_api and t = 0]
      locate_failures[where a = default_args and api = starts_at_one_api and t = 0]
      1 2 3 4 5 6 nondecreasing_late_start
    by simp
qed

text \<open>
  C6 as stated fails: with no summary below height 3 and epoch 1 from there on, the
  index never decreases and the target 0 is at most the epoch of the head, yet the call
  fails.
\<close>

theorem locate_failures_counterexample:
  "nondecreasing default_args starts_at_one_api
   \<and> epochAt default_args starts_at_one_api (header_number starts_at_one_api) = Some 1
   \<and> (0::int) \<le> 1
   \<and> findEpochStartBlock default_args starts_at_one_api 0 = Inl BoundarySearchInconsistent"
proof -
  have "epochAt default_args starts_at_one_api (header_number starts_at_one_api) = Some 1"
    by code_simp
  moreover have "findEpochStartBlock default_args starts_at_one_api 0 = Inl BoundarySearchInconsistent"
    by code_simp
  ultimately show ?thesis using nondecreasing_starts_at_one by simp
qed

section \<open>The loop over the epochs\<close>

lemma main_iter_fail:
  "findEpochStartBlock a api ep = Inl e \<Longrightarrow> main_iter a api ep st = Inl e"
  by (simp add: main_iter_def)

lemma main_iter_Inl:
  "main_iter a api ep st = Inl e \<longleftrightarrow> findEpochStartBlock a api ep = Inl e"
  by (auto simp: main_iter_def Let_def split: sum.splits)

lemma main_iter_skip:
  "findEpochStartBlock a api ep = Inr s \<Longrightarrow> findEpochStartBlock a api (ep + 1) = Inl e \<Longrightarrow>
     main_iter a api ep st
       = Inr (if length (rows st) > lastWrittenLength st then write_rows st else st)"
  by (simp add: main_iter_def)

lemma main_iter_confirmed:
  "findEpochStartBlock a api ep = Inr s \<Longrightarrow> findEpochStartBlock a api (ep + 1) = Inr n \<Longrightarrow>
     main_iter a api ep st
       = Inr (write_rows (st\<lparr> rows := rows st @ [new_row a ep s (n - 1)
                (readSummaryAt a api s) (readSummaryAt a api (n - 1))] \<rparr>))"
  by (simp add: main_iter_def Let_def)

lemma main_loop_unfold:
  "ep \<le> endEpoch \<Longrightarrow> main_iter a api ep st = Inr st' \<Longrightarrow>
     main_loop a api ep endEpoch st = main_loop a api (ep + 1) endEpoch st'"
  by (subst main_loop.simps) simp

lemma main_loop_fail:
  "ep \<le> endEpoch \<Longrightarrow> main_iter a api ep st = Inl e \<Longrightarrow>
     main_loop a api ep endEpoch st = (Some e, st)"
  by (subst main_loop.simps) simp

lemma main_loop_exit: "endEpoch < ep \<Longrightarrow> main_loop a api ep endEpoch st = (None, st)"
  by (subst main_loop.simps) simp

lemma completed_rows_empty: "k < ep \<Longrightarrow> completed_rows a api ep k = []"
  by (simp add: completed_rows_def)

lemma completed_rows_rec:
  "ep \<le> k \<Longrightarrow> completed_rows a api ep k =
     (case epoch_row a api ep of None \<Rightarrow> completed_rows a api (ep + 1) k
      | Some x \<Rightarrow> x # completed_rows a api (ep + 1) k)"
  by (simp add: completed_rows_def upto_rec1 split: option.splits)

lemma epoch_row_Some:
  "epoch_row a api ep = Some x \<longleftrightarrow>
     (\<exists>s n. findEpochStartBlock a api ep = Inr s \<and> findEpochStartBlock a api (ep + 1) = Inr n
        \<and> x = new_row a ep s (n - 1) (readSummaryAt a api s) (readSummaryAt a api (n - 1)))"
  by (auto simp: epoch_row_def split: sum.splits)

lemma epoch_row_epoch: "epoch_row a api ep = Some x \<Longrightarrow> epoch x = ep"
  by (auto simp: epoch_row_Some new_row_def)

lemma set_completed_rows:
  "set (completed_rows a api ep k) = {x. \<exists>N. ep \<le> N \<and> N \<le> k \<and> epoch_row a api N = Some x}"
proof -
  have "set (List.map_filter (epoch_row a api) xs) = {x. \<exists>N\<in>set xs. epoch_row a api N = Some x}" for xs
    by (induction xs) (auto split: option.splits)
  then show ?thesis by (auto simp: completed_rows_def)
qed

lemma map_epoch_completed_rows:
  "map epoch (completed_rows a api ep k) = filter (\<lambda>N. epoch_row a api N \<noteq> None) [ep..k]"
proof -
  have "map epoch (List.map_filter (epoch_row a api) xs)
          = filter (\<lambda>N. epoch_row a api N \<noteq> None) xs" for xs
    by (induction xs) (auto simp: epoch_row_epoch split: option.splits)
  then show ?thesis by (simp add: completed_rows_def)
qed

lemma completed_rows_ascending: "sorted_wrt (<) (map epoch (completed_rows a api ep k))"
  by (simp add: map_epoch_completed_rows sorted_wrt_filter)

text \<open>The state of the loop when it ends, in terms of the rows completed.\<close>

lemma main_loop_result:
  assumes "main_loop a api ep endEpoch st = (r, st')"
    and "lastWrittenLength st = length (rows st)"
  shows "\<exists>j. rows st' = rows st @ completed_rows a api ep j
           \<and> lastWrittenLength st' = length (rows st')
           \<and> OUT_file st' = (if completed_rows a api ep j = [] then OUT_file st else Some (rows st'))
           \<and> (case r of None \<Rightarrow> j = endEpoch
               | Some e \<Rightarrow> ep \<le> j + 1 \<and> j + 1 \<le> endEpoch \<and> findEpochStartBlock a api (j + 1) = Inl e)"
  using assms
proof (induction a api ep endEpoch st rule: main_loop.induct)
  case (1 a api ep endEpoch st)
  show ?case
  proof (cases "ep \<le> endEpoch")
    case False
    with 1(2) have "r = None" "st' = st" by (simp_all add: main_loop_exit)
    with False 1(3) show ?thesis
      by (intro exI[of _ endEpoch]) (simp add: completed_rows_empty)
  next
    case True
    show ?thesis
    proof (cases "main_iter a api ep st")
      case (Inl e)
      with True 1(2) have "r = Some e" "st' = st" by (simp_all add: main_loop_fail)
      moreover from Inl have "findEpochStartBlock a api ep = Inl e" by (simp add: main_iter_Inl)
      ultimately show ?thesis using True 1(3)
        by (intro exI[of _ "ep - 1"]) (simp add: completed_rows_empty)
    next
      case (Inr st1)
      then obtain s where s: "findEpochStartBlock a api ep = Inr s"
        by (cases "findEpochStartBlock a api ep") (auto simp: main_iter_Inl[symmetric] main_iter_fail)
      have loop: "main_loop a api (ep + 1) endEpoch st1 = (r, st')"
        using main_loop_unfold[OF True Inr] 1(2) by simp
      show ?thesis
      proof (cases "findEpochStartBlock a api (ep + 1)")
        case next_fails: (Inl e)
        with s 1(3) Inr have st1: "st1 = st" by (simp add: main_iter_skip)
        from s next_fails have none: "epoch_row a api ep = None" by (simp add: epoch_row_def)
        from 1(1)[OF True Inr loop] st1 1(3)
        obtain j where j: "rows st' = rows st @ completed_rows a api (ep + 1) j"
          "lastWrittenLength st' = length (rows st')"
          "OUT_file st' = (if completed_rows a api (ep + 1) j = [] then OUT_file st else Some (rows st'))"
          "case r of None \<Rightarrow> j = endEpoch
           | Some e \<Rightarrow> ep + 1 \<le> j + 1 \<and> j + 1 \<le> endEpoch \<and> findEpochStartBlock a api (j + 1) = Inl e"
          by auto
        from j(4) True have "ep \<le> j" by (auto split: option.splits)
        then have "completed_rows a api ep j = completed_rows a api (ep + 1) j"
          using none by (simp add: completed_rows_rec)
        with j show ?thesis by (intro exI[of _ j]) (auto split: option.splits)
      next
        case next_found: (Inr n)
        let ?x = "new_row a ep s (n - 1) (readSummaryAt a api s) (readSummaryAt a api (n - 1))"
        from s next_found Inr have st1: "st1 = write_rows (st\<lparr> rows := rows st @ [?x] \<rparr>)"
          by (simp add: main_iter_confirmed)
        then have st1': "rows st1 = rows st @ [?x]" "lastWrittenLength st1 = length (rows st1)"
          "OUT_file st1 = Some (rows st1)" by (simp_all add: write_rows_def)
        from s next_found have some: "epoch_row a api ep = Some ?x" by (simp add: epoch_row_def)
        from 1(1)[OF True Inr loop st1'(2)]
        obtain j where j: "rows st' = rows st1 @ completed_rows a api (ep + 1) j"
          "lastWrittenLength st' = length (rows st')"
          "OUT_file st' = (if completed_rows a api (ep + 1) j = [] then OUT_file st1 else Some (rows st'))"
          "case r of None \<Rightarrow> j = endEpoch
           | Some e \<Rightarrow> ep + 1 \<le> j + 1 \<and> j + 1 \<le> endEpoch \<and> findEpochStartBlock a api (j + 1) = Inl e"
          by auto
        from j(4) True have "ep \<le> j" by (auto split: option.splits)
        then have "completed_rows a api ep j = ?x # completed_rows a api (ep + 1) j"
          using some by (simp add: completed_rows_rec)
        with j st1' show ?thesis by (intro exI[of _ j]) (auto split: option.splits)
      qed
    qed
  qed
qed

lemma main_loop_split:
  "ep \<le> k + 1 \<Longrightarrow> k \<le> endEpoch \<Longrightarrow>
     main_loop a api ep endEpoch st =
       (case main_loop a api ep k st of
          (Some e, s) \<Rightarrow> (Some e, s)
        | (None, s) \<Rightarrow> main_loop a api (k + 1) endEpoch s)"
proof (induction a api ep k st rule: main_loop.induct)
  case (1 a api ep k st)
  show ?case
  proof (cases "ep \<le> k")
    case False
    with 1(2) have "ep = k + 1" by simp
    with False show ?thesis by (simp add: main_loop_exit)
  next
    case True
    with 1(3) have le: "ep \<le> endEpoch" by simp
    show ?thesis
    proof (cases "main_iter a api ep st")
      case (Inl e)
      with True le show ?thesis by (simp add: main_loop_fail)
    next
      case (Inr st1)
      from 1(1)[OF True Inr _ 1(3)] True
      show ?thesis by (simp add: main_loop_unfold[OF True Inr] main_loop_unfold[OF le Inr])
    qed
  qed
qed

lemma main_result:
  assumes head: "epochAt a api (header_number api) = Some he"
  shows "\<exists>j. snd (main a api file) =
               (if completed_rows a api (resolve_from (FROM a) he) j = [] then file
                else Some (existing_rows a file @ completed_rows a api (resolve_from (FROM a) he) j))
           \<and> (case fst (main a api file) of None \<Rightarrow> j = resolve_to (TO a) he
               | Some e \<Rightarrow> resolve_from (FROM a) he \<le> j + 1 \<and> j + 1 \<le> resolve_to (TO a) he
                           \<and> findEpochStartBlock a api (j + 1) = Inl e)"
proof -
  let ?st0 = "init_state a file"
  have st0: "lastWrittenLength ?st0 = length (rows ?st0)" "rows ?st0 = existing_rows a file"
    "OUT_file ?st0 = file" by (simp_all add: init_state_def)
  obtain r st where loop: "main_loop a api (resolve_from (FROM a) he) (resolve_to (TO a) he) ?st0 = (r, st)"
    by (cases "main_loop a api (resolve_from (FROM a) he) (resolve_to (TO a) he) ?st0")
  from main_loop_result[OF loop st0(1)] obtain j where
    j: "rows st = existing_rows a file @ completed_rows a api (resolve_from (FROM a) he) j"
       "lastWrittenLength st = length (rows st)"
       "OUT_file st = (if completed_rows a api (resolve_from (FROM a) he) j = [] then file
                       else Some (rows st))"
       "case r of None \<Rightarrow> j = resolve_to (TO a) he
        | Some e \<Rightarrow> resolve_from (FROM a) he \<le> j + 1 \<and> j + 1 \<le> resolve_to (TO a) he
                    \<and> findEpochStartBlock a api (j + 1) = Inl e"
    unfolding st0 by auto
  have m: "main a api file = (r, OUT_file st)"
    using head loop j(2) by (cases r) (simp_all add: main_def Let_def)
  show ?thesis using j(1,3,4) unfolding m by (intro exI[of _ j]) simp
qed

lemma main_no_head:
  "epochAt a api (header_number api) = None \<Longrightarrow> main a api file = (Some CannotReadCurrentEpoch, file)"
  by (simp add: main_def)

lemma completed_row_confirmed:
  assumes "x \<in> set (completed_rows a api ep k)"
  shows "ep \<le> epoch x" and "epoch x \<le> k"
    and "findEpochStartBlock a api (epoch x) = Inr (startBlock x)"
    and "findEpochStartBlock a api (epoch x + 1) = Inr (endBlock x + 1)"
  using assms by (auto simp: set_completed_rows epoch_row_Some new_row_def)

text \<open>What a run leaves in the file: the file as it was, or the existing rows and rows completed.\<close>

lemma main_file:
  "\<exists>ep k. snd (main a api file) =
      (if completed_rows a api ep k = [] then file
       else Some (existing_rows a file @ completed_rows a api ep k))
    \<and> (\<forall>he. epochAt a api (header_number api) = Some he \<longrightarrow> ep = resolve_from (FROM a) he)"
proof (cases "epochAt a api (header_number api)")
  case None
  then show ?thesis
    by (intro exI[of _ 1] exI[of _ 0]) (simp add: main_no_head completed_rows_empty)
next
  case (Some he)
  from main_result[OF Some, of "file"] show ?thesis using Some by auto
qed

lemma completed_rows_last:
  assumes "epoch_row a api k = None"
  shows "completed_rows a api ep k = completed_rows a api ep (k - 1)"
proof (cases "ep \<le> k")
  case True
  then have "[ep..k] = [ep..k - 1] @ [k]" by (rule upto_rec2)
  with assms show ?thesis by (simp add: completed_rows_def List.map_filter_def)
next
  case False
  then show ?thesis by (simp add: completed_rows_empty)
qed

lemma existing_rows_persisted:
  "existing_rows a file = (if APPEND a then persisted file else [])"
  by (cases "file") (simp_all add: existing_rows_def persisted_def)

lemma main_from_loop:
  assumes "epochAt a api (header_number api) = Some he"
  shows "main a api file =
      (fst (main_loop a api (resolve_from (FROM a) he) (resolve_to (TO a) he) (init_state a file)),
       OUT_file (snd (main_loop a api (resolve_from (FROM a) he) (resolve_to (TO a) he)
                        (init_state a file))))"
proof -
  let ?L = "main_loop a api (resolve_from (FROM a) he) (resolve_to (TO a) he) (init_state a file)"
  obtain r st where L: "?L = (r, st)" by (cases ?L)
  have "lastWrittenLength (init_state a file) = length (rows (init_state a file))"
    by (simp add: init_state_def)
  from main_loop_result[OF L this] have "lastWrittenLength st = length (rows st)" by blast
  with assms L show ?thesis by (cases r) (simp_all add: main_def Let_def)
qed

text \<open>
  C2, as amended. When the start of epoch \<open>ep\<close> is found and the search for the start of
  \<open>ep + 1\<close> fails because the head has not reached that epoch, the pass appends no row
  and leaves the file as it is, holding the rows accumulated so far when it held them
  before (rows still unwritten would be written). The loop does not stop: it goes on
  with \<open>ep + 1\<close>. When \<open>ep\<close> is the last epoch of the range the loop ends without an
  error; a run whose range ends at \<open>ep\<close>, the starts of the earlier epochs of the range
  being found, returns without an error and leaves in the file the existing rows
  followed by the rows of the epochs completed before \<open>ep\<close>.
\<close>

theorem skip_continues:
  assumes "findEpochStartBlock a api ep = Inr s"
    and "findEpochStartBlock a api (ep + 1) = Inl EpochNotYetReached"
  shows "\<exists>st'. main_iter a api ep st = Inr st'
           \<and> rows st' = rows st
           \<and> (lastWrittenLength st = length (rows st) \<longrightarrow> st' = st)
           \<and> (OUT_file st' = OUT_file st \<or> OUT_file st' = Some (rows st))
           \<and> (OUT_file st = Some (rows st) \<longrightarrow> OUT_file st' = Some (rows st'))
           \<and> (ep \<le> endEpoch \<longrightarrow>
                main_loop a api ep endEpoch st = main_loop a api (ep + 1) endEpoch st')
           \<and> main_loop a api ep ep st = (None, st')
           \<and> (epochAt a api (header_number api) = Some he \<and> resolve_to (TO a) he = ep
                \<and> (\<forall>N. resolve_from (FROM a) he \<le> N \<and> N < ep \<longrightarrow>
                      (\<exists>s'. findEpochStartBlock a api N = Inr s'))
               \<longrightarrow> fst (main a api file) = None
                 \<and> snd (main a api file) =
                     (if completed_rows a api (resolve_from (FROM a) he) (ep - 1) = [] then file
                      else Some (existing_rows a file
                                 @ completed_rows a api (resolve_from (FROM a) he) (ep - 1))))"
proof -
  let ?st' = "if length (rows st) > lastWrittenLength st then write_rows st else st"
  have it: "main_iter a api ep st = Inr ?st'" using assms by (rule main_iter_skip)
  have "main_loop a api ep ep st = main_loop a api (ep + 1) ep ?st'"
    using main_loop_unfold[OF _ it, of ep] by simp
  then have last: "main_loop a api ep ep st = (None, ?st')" by (simp add: main_loop_exit)
  have on: "ep \<le> endEpoch \<longrightarrow>
      main_loop a api ep endEpoch st = main_loop a api (ep + 1) endEpoch ?st'"
    using main_loop_unfold[OF _ it] by blast
  have none: "epoch_row a api ep = None" using assms by (simp add: epoch_row_def)
  have run: "fst (main a api file) = None
       \<and> snd (main a api file) =
            (if completed_rows a api (resolve_from (FROM a) he) (ep - 1) = [] then file
             else Some (existing_rows a file
                        @ completed_rows a api (resolve_from (FROM a) he) (ep - 1)))"
    if head: "epochAt a api (header_number api) = Some he" and to: "resolve_to (TO a) he = ep"
      and found: "\<forall>N. resolve_from (FROM a) he \<le> N \<and> N < ep \<longrightarrow>
                    (\<exists>s'. findEpochStartBlock a api N = Inr s')"
  proof -
    from main_result[OF head, of "file"] obtain j where
      f: "snd (main a api file) =
            (if completed_rows a api (resolve_from (FROM a) he) j = [] then file
             else Some (existing_rows a file @ completed_rows a api (resolve_from (FROM a) he) j))"
      and c: "case fst (main a api file) of None \<Rightarrow> j = resolve_to (TO a) he
              | Some e \<Rightarrow> resolve_from (FROM a) he \<le> j + 1 \<and> j + 1 \<le> resolve_to (TO a) he
                          \<and> findEpochStartBlock a api (j + 1) = Inl e"
      by blast
    have ok: "fst (main a api file) = None"
    proof (cases "fst (main a api file)")
      case (Some e')
      with c to have j: "resolve_from (FROM a) he \<le> j + 1" "j + 1 \<le> ep"
        "findEpochStartBlock a api (j + 1) = Inl e'" by auto
      show ?thesis
      proof (cases "j + 1 = ep")
        case True
        with j(3) assms(1) show ?thesis by simp
      next
        case False
        with j(1,2) found obtain s' where "findEpochStartBlock a api (j + 1) = Inr s'" by force
        with j(3) show ?thesis by simp
      qed
    qed simp
    with c to have "j = ep" by simp
    with f completed_rows_last[OF none, of "resolve_from (FROM a) he"] ok
    show ?thesis by simp
  qed
  from it last on run show ?thesis
    by (intro exI[of _ ?st']) (simp add: write_rows_def)
qed

theorem skip_continues_witness:
  "findEpochStartBlock (range_args 1 3 False) scenario_api 2 = Inr 200
   \<and> findEpochStartBlock (range_args 1 3 False) scenario_api (2 + 1) = Inl EpochNotYetReached
   \<and> map epoch (rows (snd (main_loop (range_args 1 3 False) scenario_api 1 1
                              (init_state (range_args 1 3 False) None)))) = [1]
   \<and> OUT_file (snd (main_loop (range_args 1 3 False) scenario_api 1 1
                       (init_state (range_args 1 3 False) None)))
        = Some (rows (snd (main_loop (range_args 1 3 False) scenario_api 1 1
                             (init_state (range_args 1 3 False) None))))
   \<and> main_iter (range_args 1 3 False) scenario_api 2
          (snd (main_loop (range_args 1 3 False) scenario_api 1 1
                  (init_state (range_args 1 3 False) None)))
        = Inr (snd (main_loop (range_args 1 3 False) scenario_api 1 1
                      (init_state (range_args 1 3 False) None)))
   \<and> main_loop (range_args 1 3 False) scenario_api 2 3
          (snd (main_loop (range_args 1 3 False) scenario_api 1 1
                  (init_state (range_args 1 3 False) None)))
        = main_loop (range_args 1 3 False) scenario_api (2 + 1) 3
            (snd (main_loop (range_args 1 3 False) scenario_api 1 1
                    (init_state (range_args 1 3 False) None)))
   \<and> epochAt (range_args 1 2 False) scenario_api (header_number scenario_api) = Some 2
   \<and> findEpochStartBlock (range_args 1 2 False) scenario_api 1 = Inr 100
   \<and> fst (main (range_args 1 2 False) scenario_api None) = None
   \<and> map epoch (persisted (snd (main (range_args 1 2 False) scenario_api None))) = [1]"
proof -
  let ?a = "range_args 1 3 False" and ?b = "range_args 1 2 False"
  let ?L = "main_loop ?a scenario_api 1 1 (init_state ?a None)"
  let ?st1 = "snd ?L"
  have f1: "findEpochStartBlock ?a scenario_api 2 = Inr 200" by code_simp
  have f2: "findEpochStartBlock ?a scenario_api (2 + 1) = Inl EpochNotYetReached" by code_simp
  have f3: "map epoch (rows ?st1) = [1]" by code_simp
  have f4: "fst ?L = None" by code_simp
  have g1: "findEpochStartBlock ?b scenario_api 2 = Inr 200" by code_simp
  have g2: "findEpochStartBlock ?b scenario_api (2 + 1) = Inl EpochNotYetReached" by code_simp
  have g3: "findEpochStartBlock ?b scenario_api 1 = Inr 100" by code_simp
  have g4: "epochAt ?b scenario_api (header_number scenario_api) = Some 2" by code_simp
  have g5: "map epoch (persisted (snd (main ?b scenario_api None))) = [1]" by code_simp
  have g6: "resolve_to (TO ?b) 2 = 2" "resolve_from (FROM ?b) 2 = 1"
    by (simp_all add: range_args_def resolve_to_def resolve_from_def)
  from f4 have L: "?L = (None, ?st1)" by (cases ?L) simp
  have inv0: "lastWrittenLength (init_state ?a None) = length (rows (init_state ?a None))"
    by (simp add: init_state_def)
  from main_loop_result[OF L inv0] obtain j where
    j: "rows ?st1 = rows (init_state ?a None) @ completed_rows ?a scenario_api 1 j"
       "lastWrittenLength ?st1 = length (rows ?st1)"
       "OUT_file ?st1 = (if completed_rows ?a scenario_api 1 j = [] then OUT_file (init_state ?a None)
                         else Some (rows ?st1))"
    by blast
  have "rows (init_state ?a None) = []" by (simp add: init_state_def existing_rows_def)
  with j(1) f3 have "completed_rows ?a scenario_api 1 j \<noteq> []" by auto
  with j(3) have written: "OUT_file ?st1 = Some (rows ?st1)" by simp
  from skip_continues[OF f1 f2, where st = ?st1 and endEpoch = 3] j(2)
  have it: "main_iter ?a scenario_api 2 ?st1 = Inr ?st1"
    and on: "main_loop ?a scenario_api 2 3 ?st1 = main_loop ?a scenario_api (2 + 1) 3 ?st1"
    by auto
  have "\<forall>N. resolve_from (FROM ?b) 2 \<le> N \<and> N < 2 \<longrightarrow>
          (\<exists>s'. findEpochStartBlock ?b scenario_api N = Inr s')"
  proof (intro allI impI)
    fix N :: int assume "resolve_from (FROM ?b) 2 \<le> N \<and> N < 2"
    then have "N = 1" unfolding g6 by simp
    with g3 show "\<exists>s'. findEpochStartBlock ?b scenario_api N = Inr s'" by simp
  qed
  with skip_continues[OF g1 g2, of _ _ 2 None] g4 g6(1)
  have run: "fst (main ?b scenario_api None) = None" by blast
  from f1 f2 f3 written it on g4 g3 run g5 show ?thesis by (intro conjI)
qed

text \<open>
  C2 as stated fails: asked for epochs 2 and 3 while the head is in epoch 2, the
  script finds no start for epoch 3, goes on to epoch 3, and ends with the error of
  \<^verbatim>\<open>findEpochStartBlock\<close>.
\<close>

theorem skip_continues_counterexample:
  "findEpochStartBlock (range_args 2 3 False) scenario_api 2 = Inr 200
   \<and> findEpochStartBlock (range_args 2 3 False) scenario_api (2 + 1) = Inl EpochNotYetReached
   \<and> fst (main (range_args 2 3 False) scenario_api None) = Some EpochNotYetReached"
  by code_simp

text \<open>
  C3. What a run leaves in the file is the file as it was or the existing rows followed
  by new rows; each new row has the start of its epoch as start block and the block
  before the start of the next epoch as end block, both found by
  \<^verbatim>\<open>findEpochStartBlock\<close>. So an epoch \<open>N\<close> for which the search for the start of
  \<open>N + 1\<close> fails, with whatever error, has no new row.
\<close>

theorem no_premature_completion:
  "\<exists>new. snd (main a api file) = (if new = [] then file else Some (existing_rows a file @ new))
      \<and> (\<forall>x\<in>set new. findEpochStartBlock a api (epoch x) = Inr (startBlock x)
                    \<and> findEpochStartBlock a api (epoch x + 1) = Inr (endBlock x + 1))
      \<and> (\<forall>N e. findEpochStartBlock a api (N + 1) = Inl e \<longrightarrow> N \<notin> epoch ` set new)"
proof -
  from main_file[of a api "file"] obtain ep k where
    f: "snd (main a api file) = (if completed_rows a api ep k = [] then file
         else Some (existing_rows a file @ completed_rows a api ep k))" by blast
  have c: "\<forall>x\<in>set (completed_rows a api ep k).
             findEpochStartBlock a api (epoch x) = Inr (startBlock x)
             \<and> findEpochStartBlock a api (epoch x + 1) = Inr (endBlock x + 1)"
    using completed_row_confirmed(3,4) by blast
  then have "\<forall>N e. findEpochStartBlock a api (N + 1) = Inl e
               \<longrightarrow> N \<notin> epoch ` set (completed_rows a api ep k)" by force
  with f c show ?thesis by blast
qed

theorem no_premature_completion_witness:
  "findEpochStartBlock (range_args 1 2 False) scenario_api (2 + 1) = Inl EpochNotYetReached
   \<and> 2 \<notin> epoch ` set (persisted (snd (main (range_args 1 2 False) scenario_api None)))
   \<and> map epoch (persisted (snd (main (range_args 1 2 False) scenario_api None))) = [1]
   \<and> map endBlock (persisted (snd (main (range_args 1 2 False) scenario_api None))) = [199]"
proof -
  let ?a = "range_args 1 2 False"
  have 1: "findEpochStartBlock ?a scenario_api (2 + 1) = Inl EpochNotYetReached" by code_simp
  have 2: "map epoch (persisted (snd (main ?a scenario_api None))) = [1]" by code_simp
  have 3: "map endBlock (persisted (snd (main ?a scenario_api None))) = [199]" by code_simp
  have e: "existing_rows ?a None = []" by (simp add: existing_rows_def)
  from no_premature_completion[of ?a scenario_api None] obtain new where
    n: "snd (main ?a scenario_api None) = (if new = [] then None else Some ([] @ new))"
       "\<forall>N e. findEpochStartBlock ?a scenario_api (N + 1) = Inl e \<longrightarrow> N \<notin> epoch ` set new"
    unfolding e by blast
  from n(1) have "persisted (snd (main ?a scenario_api None)) = new" by (simp add: persisted_def)
  with n(2) 1 have "2 \<notin> epoch ` set (persisted (snd (main ?a scenario_api None)))" by blast
  with 1 2 3 show ?thesis by blast
qed

lemma main_keeps_ascending:
  assumes "sorted_wrt (<) (map epoch (persisted file))"
    and "\<forall>he. epochAt a api (header_number api) = Some he \<longrightarrow>
           (\<forall>x\<in>set (existing_rows a file). epoch x < resolve_from (FROM a) he)"
  shows "sorted_wrt (<) (map epoch (persisted (snd (main a api file))))"
proof (cases "epochAt a api (header_number api)")
  case None
  with assms(1) show ?thesis by (simp add: main_no_head)
next
  case (Some he)
  let ?start = "resolve_from (FROM a) he"
  from main_result[OF Some, of "file"] obtain j where
    f: "snd (main a api file) = (if completed_rows a api ?start j = [] then file
         else Some (existing_rows a file @ completed_rows a api ?start j))" by blast
  show ?thesis
  proof (cases "completed_rows a api ?start j = []")
    case True
    with f assms(1) show ?thesis by simp
  next
    case False
    have ex: "sorted_wrt (<) (map epoch (existing_rows a file))"
      using assms(1) by (auto simp: existing_rows_def persisted_def)
    have "\<forall>x\<in>set (existing_rows a file). \<forall>y\<in>set (completed_rows a api ?start j). epoch x < epoch y"
      using assms(2) Some completed_row_confirmed(1) by force
    with ex completed_rows_ascending[of a api ?start j] False f
    show ?thesis by (simp add: persisted_def sorted_wrt_append)
  qed
qed

text \<open>
  C5, as amended. A first run on an empty store, then a second run on the file the
  first one left, starting at an epoch above every epoch in that file: the rows in the
  file after the second run have strictly ascending epochs, hence no epoch twice.
\<close>

theorem resume_ascending:
  assumes "epochAt a2 api2 (header_number api2) = Some he2"
    and "\<forall>x\<in>set (persisted (snd (main a1 api1 None))). epoch x < resolve_from (FROM a2) he2"
  shows "sorted_wrt (<) (map epoch (persisted (snd (main a2 api2 (snd (main a1 api1 None))))))
       \<and> distinct (map epoch (persisted (snd (main a2 api2 (snd (main a1 api1 None))))))"
proof -
  let ?file1 = "snd (main a1 api1 None)"
  have s1: "sorted_wrt (<) (map epoch (persisted ?file1))"
    by (rule main_keeps_ascending) (simp_all add: persisted_def existing_rows_def)
  have sub: "set (existing_rows a2 ?file1) \<subseteq> set (persisted ?file1)"
    by (auto simp: existing_rows_def persisted_def)
  have "sorted_wrt (<) (map epoch (persisted (snd (main a2 api2 ?file1))))"
  proof (rule main_keeps_ascending[OF s1])
    show "\<forall>he. epochAt a2 api2 (header_number api2) = Some he \<longrightarrow>
           (\<forall>x\<in>set (existing_rows a2 ?file1). epoch x < resolve_from (FROM a2) he)"
      using assms sub by auto
  qed
  then show ?thesis by (simp add: strict_sorted_iff)
qed

theorem resume_ascending_witness:
  "epochAt (range_args 2 2 True) later_api (header_number later_api) = Some 3
   \<and> map epoch (persisted (snd (main (range_args 0 1 False) scenario_api None))) = [0, 1]
   \<and> resolve_from (FROM (range_args 2 2 True)) 3 = 2
   \<and> map epoch (persisted (snd (main (range_args 2 2 True) later_api
           (snd (main (range_args 0 1 False) scenario_api None))))) = [0, 1, 2]
   \<and> distinct (map epoch (persisted (snd (main (range_args 2 2 True) later_api
           (snd (main (range_args 0 1 False) scenario_api None))))))"
proof -
  let ?a1 = "range_args 0 1 False" and ?a2 = "range_args 2 2 True"
  have 1: "epochAt ?a2 later_api (header_number later_api) = Some 3" by code_simp
  have 2: "map epoch (persisted (snd (main ?a1 scenario_api None))) = [0, 1]" by code_simp
  have 3: "resolve_from (FROM ?a2) 3 = 2" by code_simp
  have 4: "map epoch (persisted (snd (main ?a2 later_api (snd (main ?a1 scenario_api None)))))
             = [0, 1, 2]" by code_simp
  have "\<forall>e\<in>set (map epoch (persisted (snd (main ?a1 scenario_api None)))). e < 2"
    unfolding 2 by simp
  then have 5: "\<forall>x\<in>set (persisted (snd (main ?a1 scenario_api None))).
                  epoch x < resolve_from (FROM ?a2) 3"
    unfolding 3 by simp
  from resume_ascending[OF 1 5] 1 2 3 4 show ?thesis by blast
qed

text \<open>
  C5 as stated fails for overlapping ranges: after a run over epochs 0 to 1, a run in
  append mode over epoch 1 leaves the epochs 0, 1, 1 in the file.
\<close>

theorem resume_counterexample:
  "map epoch (persisted (snd (main (range_args 1 1 True) scenario_api
           (snd (main (range_args 0 1 False) scenario_api None))))) = [0, 1, 1]
   \<and> \<not> distinct (map epoch (persisted (snd (main (range_args 1 1 True) scenario_api
           (snd (main (range_args 0 1 False) scenario_api None))))))"
proof -
  have "map epoch (persisted (snd (main (range_args 1 1 True) scenario_api
           (snd (main (range_args 0 1 False) scenario_api None))))) = [0, 1, 1]" by code_simp
  then show ?thesis by simp
qed

text \<open>
  C7. A pass that finds the start of \<open>ep\<close> and of \<open>ep + 1\<close> appends the row of \<open>ep\<close> and
  writes all rows to the file. Between two passes, after the epochs \<open>ep\<close> to \<open>k\<close>, the
  rows are the rows the loop started with followed by the rows of the epochs completed
  so far, and the file holds them all as soon as there is one such row; the loop to
  \<open>endEpoch\<close> passes through that state. Started as \<^verbatim>\<open>main\<close> starts it, the rows the
  loop starts with are the rows of the file in append mode and none otherwise, so the
  file then holds the existing rows followed by every row completed so far; and
  \<^verbatim>\<open>main\<close> is that loop, from the first to the last epoch of the range.
\<close>

theorem persisted_after_each_epoch:
  "(findEpochStartBlock a api ep = Inr s \<and> findEpochStartBlock a api (ep + 1) = Inr n \<longrightarrow>
      (\<exists>st'. main_iter a api ep st = Inr st'
         \<and> rows st' = rows st @ [new_row a ep s (n - 1) (readSummaryAt a api s)
                                     (readSummaryAt a api (n - 1))]
         \<and> OUT_file st' = Some (rows st')))
   \<and> (lastWrittenLength st = length (rows st) \<and> main_loop a api ep k st = (None, st_k) \<longrightarrow>
        rows st_k = rows st @ completed_rows a api ep k
        \<and> (completed_rows a api ep k \<noteq> [] \<longrightarrow> OUT_file st_k = Some (rows st_k)))
   \<and> (ep \<le> k + 1 \<and> k \<le> endEpoch \<longrightarrow>
        main_loop a api ep endEpoch st =
          (case main_loop a api ep k st of
             (Some e, s) \<Rightarrow> (Some e, s)
           | (None, s) \<Rightarrow> main_loop a api (k + 1) endEpoch s))
   \<and> (main_loop a api ep k (init_state a stored) = (None, st_k) \<longrightarrow>
        rows st_k = (if APPEND a then persisted stored else []) @ completed_rows a api ep k
        \<and> (completed_rows a api ep k \<noteq> [] \<longrightarrow>
             OUT_file st_k = Some ((if APPEND a then persisted stored else [])
                                   @ completed_rows a api ep k)))
   \<and> (epochAt a api (header_number api) = Some he \<longrightarrow>
        main a api stored =
          (fst (main_loop a api (resolve_from (FROM a) he) (resolve_to (TO a) he)
                  (init_state a stored)),
           OUT_file (snd (main_loop a api (resolve_from (FROM a) he) (resolve_to (TO a) he)
                            (init_state a stored)))))"
proof -
  have "findEpochStartBlock a api ep = Inr s \<and> findEpochStartBlock a api (ep + 1) = Inr n \<longrightarrow>
      (\<exists>st'. main_iter a api ep st = Inr st'
         \<and> rows st' = rows st @ [new_row a ep s (n - 1) (readSummaryAt a api s)
                                     (readSummaryAt a api (n - 1))]
         \<and> OUT_file st' = Some (rows st'))"
    by (simp add: main_iter_confirmed write_rows_def)
  moreover have "lastWrittenLength st = length (rows st) \<and> main_loop a api ep k st = (None, st_k) \<longrightarrow>
        rows st_k = rows st @ completed_rows a api ep k
        \<and> (completed_rows a api ep k \<noteq> [] \<longrightarrow> OUT_file st_k = Some (rows st_k))"
    using main_loop_result[of a api ep k st None st_k] by auto
  moreover have "ep \<le> k + 1 \<and> k \<le> endEpoch \<longrightarrow>
        main_loop a api ep endEpoch st =
          (case main_loop a api ep k st of
             (Some e, s) \<Rightarrow> (Some e, s)
           | (None, s) \<Rightarrow> main_loop a api (k + 1) endEpoch s)"
    using main_loop_split[of ep k endEpoch a api st] by blast
  moreover have "main_loop a api ep k (init_state a stored) = (None, st_k) \<longrightarrow>
        rows st_k = (if APPEND a then persisted stored else []) @ completed_rows a api ep k
        \<and> (completed_rows a api ep k \<noteq> [] \<longrightarrow>
             OUT_file st_k = Some ((if APPEND a then persisted stored else [])
                                   @ completed_rows a api ep k))"
  proof
    assume L: "main_loop a api ep k (init_state a stored) = (None, st_k)"
    have inv: "lastWrittenLength (init_state a stored) = length (rows (init_state a stored))"
      and r0: "rows (init_state a stored) = (if APPEND a then persisted stored else [])"
      by (simp_all add: init_state_def existing_rows_persisted)
    from main_loop_result[OF L inv] r0
    show "rows st_k = (if APPEND a then persisted stored else []) @ completed_rows a api ep k
        \<and> (completed_rows a api ep k \<noteq> [] \<longrightarrow>
             OUT_file st_k = Some ((if APPEND a then persisted stored else [])
                                   @ completed_rows a api ep k))"
      by auto
  qed
  moreover have "epochAt a api (header_number api) = Some he \<longrightarrow>
        main a api stored =
          (fst (main_loop a api (resolve_from (FROM a) he) (resolve_to (TO a) he)
                  (init_state a stored)),
           OUT_file (snd (main_loop a api (resolve_from (FROM a) he) (resolve_to (TO a) he)
                            (init_state a stored))))"
    using main_from_loop[of a api he stored] by blast
  ultimately show ?thesis by blast
qed

theorem persisted_after_each_epoch_witness:
  "findEpochStartBlock (range_args 0 1 False) scenario_api 0 = Inr 1
   \<and> findEpochStartBlock (range_args 0 1 False) scenario_api (0 + 1) = Inr 100
   \<and> (\<exists>st'. main_iter (range_args 0 1 False) scenario_api 0
               (init_state (range_args 0 1 False) None) = Inr st'
        \<and> map epoch (rows st') = [0] \<and> map endBlock (rows st') = [99]
        \<and> OUT_file st' = Some (rows st'))
   \<and> map epoch (persisted (snd (main (range_args 0 1 False) scenario_api None))) = [0, 1]
   \<and> APPEND (range_args 2 2 True)
   \<and> (\<exists>st_k. main_loop (range_args 2 2 True) later_api 2 2
                 (init_state (range_args 2 2 True)
                    (snd (main (range_args 0 1 False) scenario_api None))) = (None, st_k)
        \<and> rows st_k = persisted (snd (main (range_args 0 1 False) scenario_api None))
                        @ completed_rows (range_args 2 2 True) later_api 2 2
        \<and> map epoch (rows st_k) = [0, 1, 2]
        \<and> OUT_file st_k = Some (rows st_k))
   \<and> map epoch (persisted (snd (main (range_args 2 2 True) later_api
           (snd (main (range_args 0 1 False) scenario_api None))))) = [0, 1, 2]"
proof -
  let ?a = "range_args 0 1 False" and ?b = "range_args 2 2 True"
  let ?file1 = "snd (main ?a scenario_api None)"
  let ?L = "main_loop ?b later_api 2 2 (init_state ?b ?file1)"
  have 1: "findEpochStartBlock ?a scenario_api 0 = Inr 1" by code_simp
  have 2: "findEpochStartBlock ?a scenario_api (0 + 1) = Inr 100" by code_simp
  have 3: "map epoch (persisted ?file1) = [0, 1]" by code_simp
  have 4: "fst ?L = None" by code_simp
  have 5: "map epoch (rows (snd ?L)) = [0, 1, 2]" by code_simp
  have 6: "map epoch (persisted (snd (main ?b later_api ?file1))) = [0, 1, 2]" by code_simp
  have 7: "APPEND ?b" by (simp add: range_args_def)
  have 8: "rows (init_state ?a None) = []" by (simp add: init_state_def existing_rows_def)
  from persisted_after_each_epoch[where a = ?a and api = scenario_api and ep = 0 and s = 1
      and n = 100 and st = "init_state ?a None"] 1 2
  obtain st' where st': "main_iter ?a scenario_api 0 (init_state ?a None) = Inr st'"
    "rows st' = rows (init_state ?a None) @ [new_row ?a 0 1 (100 - 1)
       (readSummaryAt ?a scenario_api 1) (readSummaryAt ?a scenario_api (100 - 1))]"
    "OUT_file st' = Some (rows st')" by blast
  then have first: "\<exists>st'. main_iter ?a scenario_api 0 (init_state ?a None) = Inr st'
        \<and> map epoch (rows st') = [0] \<and> map endBlock (rows st') = [99]
        \<and> OUT_file st' = Some (rows st')"
    by (intro exI[of _ st']) (simp add: 8 new_row_def)
  from 4 have L: "?L = (None, snd ?L)" by (cases ?L) simp
  note T = persisted_after_each_epoch[where a = ?b and api = later_api and ep = 2 and k = 2
      and st_k = "snd ?L" and stored = ?file1]
  note T4 = T[THEN conjunct2, THEN conjunct2, THEN conjunct2, THEN conjunct1, THEN mp, OF L]
  from T4[THEN conjunct1]
  have r: "rows (snd ?L) = persisted ?file1 @ completed_rows ?b later_api 2 2"
    by (simp only: 7 if_True)
  from T4[THEN conjunct2]
  have w: "completed_rows ?b later_api 2 2 \<noteq> [] \<longrightarrow>
             OUT_file (snd ?L) = Some (persisted ?file1 @ completed_rows ?b later_api 2 2)"
    by (simp only: 7 if_True)
  have ne: "completed_rows ?b later_api 2 2 \<noteq> []"
  proof
    assume "completed_rows ?b later_api 2 2 = []"
    with r have "rows (snd ?L) = persisted ?file1" by (simp only: append_Nil2)
    with 3 5 show False by (simp only:) simp
  qed
  from w[THEN mp, OF ne] have "OUT_file (snd ?L) = Some (rows (snd ?L))" by (simp only: r)
  with L r 5 have second: "\<exists>st_k. ?L = (None, st_k)
        \<and> rows st_k = persisted ?file1 @ completed_rows ?b later_api 2 2
        \<and> map epoch (rows st_k) = [0, 1, 2]
        \<and> OUT_file st_k = Some (rows st_k)"
    by (intro exI[of _ "snd ?L"] conjI)
  from 1 2 first 3 7 second 6 show ?thesis by (intro conjI)
qed

text \<open>
  C9. A pass that finds the start of \<open>ep\<close> and of \<open>ep + 1\<close> appends and writes a row
  whatever the two snapshot reads return. The row has the epoch and the two heights;
  the fields taken from a snapshot that is missing are empty: hash, total stake and
  operator stakes for the start, hash and rewards for the end.
\<close>

theorem row_despite_absent_snapshot:
  "(findEpochStartBlock a api ep = Inr s \<and> findEpochStartBlock a api (ep + 1) = Inr n \<longrightarrow>
      main_iter a api ep st =
        Inr (write_rows (st\<lparr> rows := rows st @ [new_row a ep s (n - 1)
               (readSummaryAt a api s) (readSummaryAt a api (n - 1))] \<rparr>)))
   \<and> epoch (new_row a ep s eb start_snap end_snap) = ep
   \<and> startBlock (new_row a ep s eb start_snap end_snap) = s
   \<and> endBlock (new_row a ep s eb start_snap end_snap) = eb
   \<and> startHash (new_row a ep s eb None end_snap) = None
   \<and> totalStake (new_row a ep s eb None end_snap) = None
   \<and> operatorStakes (new_row a ep s eb None end_snap) = None
   \<and> endHash (new_row a ep s eb start_snap None) = None
   \<and> rewards (new_row a ep s eb start_snap None) = None
   \<and> rows (write_rows (st\<lparr> rows := rows st @ [x] \<rparr>)) = rows st @ [x]
   \<and> OUT_file (write_rows (st\<lparr> rows := rows st @ [x] \<rparr>)) = Some (rows st @ [x])"
  by (simp add: main_iter_confirmed new_row_def write_rows_def)

theorem row_despite_absent_snapshot_witness:
  "findEpochStartBlock default_args hole_api 0 = Inr 1
   \<and> findEpochStartBlock default_args hole_api (0 + 1) = Inr 5
   \<and> readSummaryAt default_args hole_api (5 - 1) = None
   \<and> (\<exists>st'. main_iter default_args hole_api 0 (init_state default_args None) = Inr st'
        \<and> map epoch (rows st') = [0] \<and> map endBlock (rows st') = [4]
        \<and> map endHash (rows st') = [None] \<and> map rewards (rows st') = [None]
        \<and> OUT_file st' = Some (rows st'))"
proof -
  let ?a = "default_args"
  have 1: "findEpochStartBlock ?a hole_api 0 = Inr 1" by code_simp
  have 2: "findEpochStartBlock ?a hole_api (0 + 1) = Inr 5" by code_simp
  have 3: "readSummaryAt ?a hole_api (5 - 1) = None"
    by (simp add: readSummaryAt_def hole_api_def oracle_api_def)
  from row_despite_absent_snapshot[where a = ?a and api = hole_api and ep = 0 and s = 1
      and n = 5 and st = "init_state ?a None"] 1 2
  have "main_iter ?a hole_api 0 (init_state ?a None) =
        Inr (write_rows ((init_state ?a None)\<lparr> rows := rows (init_state ?a None) @ [new_row ?a 0 1 (5 - 1)
               (readSummaryAt ?a hole_api 1) (readSummaryAt ?a hole_api (5 - 1))] \<rparr>))"
    by blast
  then show ?thesis using 1 2 3
    by (simp add: init_state_def existing_rows_def new_row_def write_rows_def)
qed

section \<open>Large integers as strings\<close>




























end
